theory Spec2Isabelle
  imports Main "HOL-Library.Sublist"
begin

section \<open>Python string operations used by the deduplication engine\<close>

text \<open>
  Texts and response identifiers are Python \<open>str\<close> values. They are modelled as
  \<open>string\<close> (a list of 8-bit characters) and read as ASCII text: \<open>str.lower\<close> maps
  \<open>A\<close>..\<open>Z\<close> to \<open>a\<close>..\<open>z\<close> and keeps the length, and the whitespace class of
  \<open>str.strip()\<close> and of the regular expression \<open>\s\<close> is the ASCII part of Python's
  \<open>str.isspace\<close>: TAB, LF, VT, FF, CR, the separators 0x1C..0x1F and the blank.
\<close>

definition is_space :: "char \<Rightarrow> bool" where
  "is_space c = (c \<in> set [CHR 0x09, CHR 0x0A, CHR 0x0B, CHR 0x0C, CHR 0x0D,
                            CHR 0x1C, CHR 0x1D, CHR 0x1E, CHR 0x1F, CHR 0x20])"

definition lstrip :: "string \<Rightarrow> string" where
  "lstrip s = dropWhile is_space s"

definition rstrip :: "string \<Rightarrow> string" where
  "rstrip s = rev (dropWhile is_space (rev s))"

definition strip :: "string \<Rightarrow> string" where
  "strip s = rstrip (lstrip s)"

definition lower_char :: "char \<Rightarrow> char" where
  "lower_char c = (let n = (of_char c :: nat) in if 65 \<le> n \<and> n \<le> 90 then char_of (n + 32) else c)"

definition lower :: "string \<Rightarrow> string" where
  "lower s = map lower_char s"

text \<open>\<open>needle in haystack\<close> on strings: the needle occurs as a contiguous substring.\<close>

fun str_contains :: "string \<Rightarrow> string \<Rightarrow> bool" where
  "str_contains needle [] = (needle = [])"
| "str_contains needle (c # cs) = (prefix needle (c # cs) \<or> str_contains needle cs)"

text \<open>\<open>s.split('-')\<close>: always at least one part; \<open>'-'.join(parts)\<close>.\<close>

fun split_dash :: "string \<Rightarrow> string list" where
  "split_dash [] = [[]]"
| "split_dash (c # cs) =
     (if c = CHR ''-'' then [] # split_dash cs
      else (case split_dash cs of
              [] \<Rightarrow> [[c]]
            | p # ps \<Rightarrow> (c # p) # ps))"

fun join_dash :: "string list \<Rightarrow> string" where
  "join_dash [] = []"
| "join_dash [p] = p"
| "join_dash (p # q # ps) = p @ ''-'' @ join_dash (q # ps)"

text \<open>\<open>s.replace('\n\n', '. ')\<close>: the non-overlapping occurrences, from the left.\<close>

fun replace_nn :: "string \<Rightarrow> string" where
  "replace_nn (c # d # cs) =
     (if c = CHR 0x0A \<and> d = CHR 0x0A then ''. '' @ replace_nn cs
      else c # replace_nn (d # cs))"
| "replace_nn cs = cs"

definition replace_n :: "string \<Rightarrow> string" where
  "replace_n s = map (\<lambda>c. if c = CHR 0x0A then CHR 0x20 else c) s"

text \<open>\<open>re.sub(r'\s+', ' ', s)\<close>: every maximal run of whitespace becomes one blank.\<close>

function collapse_ws :: "string \<Rightarrow> string" where
  "collapse_ws [] = []"
| "collapse_ws (c # cs) =
     (if is_space c then CHR 0x20 # collapse_ws (dropWhile is_space cs)
      else c # collapse_ws cs)"
  by pat_completeness auto
termination
  by (relation "measure length") (auto simp: length_dropWhile_le less_Suc_eq_le)

text \<open>
  \<open>re.sub(r'\(\s*\)', '', s)\<close>: scanning from the left, an opening parenthesis followed by
  whitespace only and a closing parenthesis is removed, and the scan goes on behind it.
\<close>

function remove_empty_parens :: "string \<Rightarrow> string" where
  "remove_empty_parens [] = []"
| "remove_empty_parens (c # cs) =
     (if c = CHR ''('' \<and> dropWhile is_space cs \<noteq> [] \<and> hd (dropWhile is_space cs) = CHR '')''
      then remove_empty_parens (tl (dropWhile is_space cs))
      else c # remove_empty_parens cs)"
  by pat_completeness auto
termination
proof (relation "measure length")
  fix c :: char and cs :: string
  assume "c = CHR ''('' \<and> dropWhile is_space cs \<noteq> [] \<and> hd (dropWhile is_space cs) = CHR '')''"
  have "length (tl (dropWhile is_space cs)) \<le> length (dropWhile is_space cs)" by simp
  also have "\<dots> \<le> length cs" by (rule length_dropWhile_le)
  finally show "(tl (dropWhile is_space cs), c # cs) \<in> measure length" by simp
qed auto

section \<open>SimplifiedTTSProcessor (src/server/smart\_streaming\_processor.py)\<close>

definition clean_text_for_tts :: "string \<Rightarrow> string" where
  "clean_text_for_tts text_from_client =
     (if text_from_client = [] then []
      else strip (remove_empty_parens (collapse_ws (replace_n (replace_nn (strip text_from_client))))))"

definition known_suffixes :: "string list" where
  "known_suffixes = [''oneshot'', ''delta'', ''complete'', ''full'', ''finalized'', ''stop'']"

definition get_base_response_id :: "string \<Rightarrow> string" where
  "get_base_response_id full_response_id =
     (let parts = split_dash full_response_id in
      if length parts > 2 \<and> last parts \<in> set known_suffixes then
        (if length parts > 3 \<and> parts ! (length parts - 2) \<in> set known_suffixes
         then join_dash (butlast (butlast parts))
         else join_dash (butlast parts))
      else full_response_id)"

subsection \<open>difflib.SequenceMatcher(None, a, b).find\_longest\_match(0, len(a), 0, len(b))\<close>

text \<open>
  The matcher is built with \<open>isjunk = None\<close> and the default \<open>autojunk = True\<close>. Its index
  \<open>b2j\<close> maps an element to the increasing list of its positions in \<open>b\<close>; when \<open>b\<close> has at
  least 200 elements, every element with more than \<open>len(b) // 100 + 1\<close> occurrences is
  "popular" and is deleted from the index. The junk set is empty, so the two trailing loops
  of \<open>find_longest_match\<close> that extend a match by junk elements never run, and the test
  \<open>not isbjunk(...)\<close> of the two loops before them is always true. With the bounds
  \<open>blo = 0\<close> and \<open>bhi = len(b)\<close> no index is skipped.
\<close>

definition popular :: "string \<Rightarrow> char \<Rightarrow> bool" where
  "popular b c = (length b \<ge> 200 \<and> count_list b c > length b div 100 + 1)"

definition b2j :: "string \<Rightarrow> char \<Rightarrow> nat list" where
  "b2j b c = (if popular b c then [] else filter (\<lambda>j. b ! j = c) [0..<length b])"

text \<open>\<open>j2len.get(j-1, 0)\<close>: the key \<open>-1\<close> is never in the dictionary.\<close>

definition j2lenget :: "(nat \<rightharpoonup> nat) \<Rightarrow> nat \<Rightarrow> nat" where
  "j2lenget j2len j = (if j = 0 then 0 else (case j2len (j - 1) of None \<Rightarrow> 0 | Some v \<Rightarrow> v))"

fun inner_loop :: "(nat \<rightharpoonup> nat) \<Rightarrow> nat \<Rightarrow> nat list \<Rightarrow>
    (nat \<rightharpoonup> nat) \<times> nat \<times> nat \<times> nat \<Rightarrow> (nat \<rightharpoonup> nat) \<times> nat \<times> nat \<times> nat" where
  "inner_loop j2len i [] st = st"
| "inner_loop j2len i (j # js) (newj2len, besti, bestj, bestsize) =
     (let k = j2lenget j2len j + 1 in
      if k > bestsize
      then inner_loop j2len i js (newj2len(j \<mapsto> k), i + 1 - k, j + 1 - k, k)
      else inner_loop j2len i js (newj2len(j \<mapsto> k), besti, bestj, bestsize))"

fun outer_loop :: "string \<Rightarrow> string \<Rightarrow> nat list \<Rightarrow>
    (nat \<rightharpoonup> nat) \<times> nat \<times> nat \<times> nat \<Rightarrow> (nat \<rightharpoonup> nat) \<times> nat \<times> nat \<times> nat" where
  "outer_loop a b [] st = st"
| "outer_loop a b (i # is) (j2len, besti, bestj, bestsize) =
     outer_loop a b is (inner_loop j2len i (b2j b (a ! i)) (Map.empty, besti, bestj, bestsize))"

function extend_left :: "string \<Rightarrow> string \<Rightarrow> nat \<times> nat \<times> nat \<Rightarrow> nat \<times> nat \<times> nat" where
  "extend_left a b (besti, bestj, bestsize) =
     (if besti > 0 \<and> bestj > 0 \<and> a ! (besti - 1) = b ! (bestj - 1)
      then extend_left a b (besti - 1, bestj - 1, bestsize + 1)
      else (besti, bestj, bestsize))"
  by pat_completeness auto
termination
  by (relation "measure (\<lambda>(a, b, besti, bestj, bestsize). besti)") auto

function extend_right :: "string \<Rightarrow> string \<Rightarrow> nat \<times> nat \<times> nat \<Rightarrow> nat \<times> nat \<times> nat" where
  "extend_right a b (besti, bestj, bestsize) =
     (if besti + bestsize < length a \<and> bestj + bestsize < length b
         \<and> a ! (besti + bestsize) = b ! (bestj + bestsize)
      then extend_right a b (besti, bestj, bestsize + 1)
      else (besti, bestj, bestsize))"
  by pat_completeness auto
termination
  by (relation "measure (\<lambda>(a, b, besti, bestj, bestsize). length a - (besti + bestsize))") auto

text \<open>The result is the named tuple \<open>Match(a, b, size)\<close>.\<close>

definition find_longest_match :: "string \<Rightarrow> string \<Rightarrow> nat \<times> nat \<times> nat" where
  "find_longest_match a b =
     extend_right a b (extend_left a b (snd (outer_loop a b [0..<length a] (Map.empty, 0, 0, 0))))"

subsection \<open>process\_chunk and reset\_conversation\<close>

text \<open>
  The processor owns the dictionary \<open>oneshot_raw_texts\<close> and a reference to the audio
  manager, of which only its presence matters here. \<open>process_chunk\<close> returns the new
  processor and the text it hands to \<open>_queue_for_tts\<close>, if any; \<open>_queue_for_tts\<close> passes the
  text to \<open>queue_audio(generated_text=text, delete_after_play=True)\<close> and catches what that
  raises.

  The threshold test \<open>match.size > len(stored_oneshot) * 0.8\<close> compares an integer with a
  double. The double nearest to \<open>0.8\<close> exceeds it by \<open>0.4 * 2^-53\<close>, so the product is the
  exact \<open>4 * len / 5\<close> when that is an integer, and is closer to it than to any integer
  otherwise (for every length below \<open>2^50\<close>); the test is therefore the integer test
  \<open>5 * size > 4 * len\<close>.
\<close>

record processor =
  audio_manager :: bool
  oneshot_raw_texts :: "string \<rightharpoonup> string"

definition queue_for_tts :: "string \<Rightarrow> string option" where
  "queue_for_tts cleaned = (if cleaned \<noteq> [] then Some cleaned else None)"

definition process_chunk :: "processor \<Rightarrow> string \<Rightarrow> string \<Rightarrow> bool \<Rightarrow> processor \<times> string option" where
  "process_chunk p text_content full_response_id is_complete =
     (if \<not> audio_manager p then (p, None)
      else
        let base_id = get_base_response_id full_response_id in
        if \<not> is_complete \<and> str_contains ''oneshot'' full_response_id then
          (p\<lparr>oneshot_raw_texts := (oneshot_raw_texts p)(base_id \<mapsto> text_content)\<rparr>,
           queue_for_tts (clean_text_for_tts text_content))
        else if is_complete then
          (case oneshot_raw_texts p base_id of
             Some stored_oneshot \<Rightarrow>
               (case find_longest_match (lower stored_oneshot) (lower text_content) of
                  (match_a, match_b, match_size) \<Rightarrow>
                    if 5 * match_size > 4 * length stored_oneshot then
                      (let delta_text = strip (drop (match_b + match_size) text_content) in
                       if delta_text \<noteq> [] then
                         (p\<lparr>oneshot_raw_texts := (oneshot_raw_texts p)(base_id := None)\<rparr>,
                          queue_for_tts (clean_text_for_tts delta_text))
                       else
                         (p\<lparr>oneshot_raw_texts := (oneshot_raw_texts p)(base_id := None)\<rparr>, None))
                    else
                      (p\<lparr>oneshot_raw_texts := (oneshot_raw_texts p)(base_id := None)\<rparr>,
                       queue_for_tts (clean_text_for_tts text_content)))
           | None \<Rightarrow> (p, queue_for_tts (clean_text_for_tts text_content)))
        else (p, None))"

text \<open>\<open>reset_conversation\<close> clears the dictionary (and then the audio manager's queue).\<close>

definition reset_conversation :: "processor \<Rightarrow> processor" where
  "reset_conversation p = p\<lparr>oneshot_raw_texts := Map.empty\<rparr>"

text \<open>A sequence of chunks \<open>(text, response id, is_complete)\<close>, processed in order.\<close>

fun process_chunks :: "processor \<Rightarrow> (string \<times> string \<times> bool) list \<Rightarrow> processor" where
  "process_chunks p [] = p"
| "process_chunks p ((text_content, full_response_id, is_complete) # cs) =
     process_chunks (fst (process_chunk p text_content full_response_id is_complete)) cs"

definition common_substring :: "string \<Rightarrow> string \<Rightarrow> nat \<Rightarrow> nat \<Rightarrow> nat \<Rightarrow> bool" where
  "common_substring a b i j k =
     (i + k \<le> length a \<and> j + k \<le> length b \<and> take k (drop i a) = take k (drop j b))"






subsection \<open>The dynamic-programming loops\<close>





definition match_size :: "nat \<times> nat \<times> nat \<Rightarrow> nat" where
  "match_size t = snd (snd t)"

section \<open>AudioManager (src/audio\_manager\_plugin.py)\<close>

text \<open>
  The manager runs on one asyncio event loop: a coroutine runs without interruption up to
  its next suspension, so the code between two suspensions is one atomic step of the
  model. The suspensions of the manager are: the synthesis call inside \<open>queue_audio\<close>
  (before it, \<open>queue_audio\<close> touches no state of the manager), the bounded wait for the
  next queue item, the wait for the playback lock when it is taken,
  \<open>create_subprocess_shell\<close>, \<open>process.wait()\<close>, and the settle delay \<open>sleep(0.7)\<close>.
  The state lock is only ever held across code without a suspension, so it is free whenever
  a step starts and needs no model; \<open>put\<close> on the unbounded queue never suspends.

  The state is \<open>AudioManagerState\<close> together with the fields of \<open>AudioManager\<close> that the
  queue and the playback use. \<open>tasks\<close> holds one entry for every task created with
  \<open>create_task(self.process_audio_queue())\<close>, in creation order, with the place where that
  task stands. \<open>files\<close> is the set of audio files that exist on disk, and \<open>played\<close> records
  the files for which \<open>play_audio\<close> has entered its critical section, in order. Durations are
  in milliseconds. \<open>is_listening\<close>, the PyAudio handles and the \<open>audio_state_changed\<close> queue,
  which nothing reads, are left out.
\<close>

datatype proc = Running | Exited int

datatype task =
    Created
  | Getting
  | LockWait string bool
  | Spawning string bool
  | Waiting string bool
  | Settling string bool
  | Finished

record manager =
  is_playing :: bool
  is_speaking :: bool
  playback_start_time :: "nat option"
  current_audio_file :: "string option"
  expected_duration :: "nat option"
  currently_queued_files :: "string set"
  audio_queue :: "(string option \<times> bool) list"
  is_processing_queue :: bool
  current_process :: "proc option"
  audio_complete :: bool
  playback_lock :: bool
  lock_waiters :: "nat list"
  tasks :: "task list"
  files :: "string set"
  played :: "string list"

definition init :: "string set \<Rightarrow> manager" where
  "init fs = \<lparr>is_playing = False, is_speaking = False, playback_start_time = None,
     current_audio_file = None, expected_duration = None, currently_queued_files = {},
     audio_queue = [], is_processing_queue = False, current_process = None,
     audio_complete = True, playback_lock = False, lock_waiters = [], tasks = [],
     files = fs, played = []\<rparr>"

text \<open>Python truth of an \<open>Optional[str]\<close>: neither \<open>None\<close> nor the empty string.\<close>

fun truthy :: "string option \<Rightarrow> bool" where
  "truthy None = False"
| "truthy (Some s) = (s \<noteq> [])"

text \<open>
  \<open>_generate_unique_audio_filename\<close>: the cache directory, the clock in milliseconds as
  decimal digits and the 32 hexadecimal digits of a random UUID. The text to speak is not
  among its arguments.
\<close>

definition generate_unique_audio_filename :: "string \<Rightarrow> string \<Rightarrow> string \<Rightarrow> string" where
  "generate_unique_audio_filename cache_dir ts unique =
     cache_dir @ ''/tts_'' @ ts @ ''_'' @ unique @ ''.mp3''"

text \<open>
  What \<open>_save_tts_to_file\<close> does: the provider call and the write succeed; the provider
  call raises before any file is opened; or the file is opened and writing it raises.
\<close>

datatype synth = Saved | GenerateFailed | WriteFailed

text \<open>The part of \<open>queue_audio\<close> from \<open>if audio_file:\<close> on.\<close>

definition enqueue_file :: "string option \<Rightarrow> bool \<Rightarrow> manager \<Rightarrow> manager" where
  "enqueue_file audio_file delete_after_play s =
     (case (if truthy audio_file then audio_file else None) of
        Some f \<Rightarrow>
          if f \<in> currently_queued_files s \<or> current_audio_file s = Some f then s
          else
            (let s1 = s\<lparr>currently_queued_files := insert f (currently_queued_files s),
                        audio_queue := audio_queue s @ [(audio_file, delete_after_play)]\<rparr>
             in if \<not> is_processing_queue s1 then s1\<lparr>tasks := tasks s1 @ [Created]\<rparr> else s1)
      | None \<Rightarrow>
          (let s1 = s\<lparr>audio_queue := audio_queue s @ [(audio_file, delete_after_play)]\<rparr>
           in if \<not> is_processing_queue s1 then s1\<lparr>tasks := tasks s1 @ [Created]\<rparr> else s1))"

text \<open>
  \<open>queue_audio\<close>; \<open>unique_file\<close> is what \<open>_generate_unique_audio_filename\<close> returns in this
  call and \<open>outcome\<close> what \<open>_save_tts_to_file\<close> does. A failed synthesis is printed and the
  call returns.
\<close>

definition queue_audio ::
    "string option \<Rightarrow> string option \<Rightarrow> bool \<Rightarrow> string \<Rightarrow> synth \<Rightarrow> manager \<Rightarrow> manager" where
  "queue_audio audio_file generated_text delete_after_play unique_file outcome s =
     (if truthy generated_text \<and> \<not> truthy audio_file then
        (case outcome of
           Saved \<Rightarrow> enqueue_file (Some unique_file) delete_after_play
                      (s\<lparr>files := insert unique_file (files s)\<rparr>)
         | GenerateFailed \<Rightarrow> s
         | WriteFailed \<Rightarrow> s\<lparr>files := insert unique_file (files s)\<rparr>)
      else enqueue_file audio_file delete_after_play s)"

text \<open>
  \<open>play_audio\<close> up to \<open>create_subprocess_shell\<close>, once the playback lock is held: the state
  is marked, the completion event is cleared and the duration is read from the MP3
  metadata (\<open>None\<close>: reading it raised, and the fallback of two seconds is stored).
\<close>

definition begin_play :: "nat \<Rightarrow> string \<Rightarrow> bool \<Rightarrow> nat \<Rightarrow> nat option \<Rightarrow> manager \<Rightarrow> manager" where
  "begin_play n f d now mp3_length s =
     s\<lparr>playback_lock := True, is_speaking := True, is_playing := True,
       playback_start_time := Some now, current_audio_file := Some f,
       audio_complete := False,
       expected_duration := Some (case mp3_length of Some l \<Rightarrow> l | None \<Rightarrow> 2000),
       tasks := (tasks s)[n := Spawning f d], played := played s @ [f]\<rparr>"

text \<open>
  Entering \<open>play_audio\<close>: an asyncio lock is taken at once only when it is free and nobody
  waits for it; otherwise the caller joins the end of the waiters.
\<close>

definition play_audio :: "nat \<Rightarrow> string \<Rightarrow> bool \<Rightarrow> nat \<Rightarrow> nat option \<Rightarrow> manager \<Rightarrow> manager" where
  "play_audio n f d now mp3_length s =
     (if \<not> playback_lock s \<and> lock_waiters s = [] then begin_play n f d now mp3_length s
      else s\<lparr>lock_waiters := lock_waiters s @ [n], tasks := (tasks s)[n := LockWait f d]\<rparr>)"

text \<open>The head of the \<open>while self.is_processing_queue\<close> loop, and its \<open>finally\<close>.\<close>

definition loop_next :: "nat \<Rightarrow> manager \<Rightarrow> manager" where
  "loop_next n s =
     (if is_processing_queue s then s\<lparr>tasks := (tasks s)[n := Getting]\<rparr>
      else s\<lparr>is_processing_queue := False, tasks := (tasks s)[n := Finished]\<rparr>)"

text \<open>
  The \<open>finally\<close> block of \<open>play_audio\<close>, the release of the playback lock, and the rest of
  the loop body: the identity leaves the pending set. \<open>rm_ok\<close> tells whether \<open>os.remove\<close>
  succeeds; when it raises, that is printed.
\<close>

definition end_play :: "nat \<Rightarrow> string \<Rightarrow> bool \<Rightarrow> bool \<Rightarrow> manager \<Rightarrow> manager" where
  "end_play n f d rm_ok s =
     loop_next n
       (s\<lparr>current_process := None, is_speaking := False, is_playing := False,
          playback_start_time := None, current_audio_file := None, expected_duration := None,
          audio_complete := True,
          files := (if d \<and> f \<in> files s \<and> rm_ok then files s - {f} else files s),
          playback_lock := False,
          currently_queued_files := currently_queued_files s - {f}\<rparr>)"

text \<open>
  The steps. Those of a queue-processor task name the task; a step that is not enabled
  leaves the state as it is.
\<close>

datatype event =
    QueueAudio "string option" "string option" bool string synth
  | TaskStart nat
  | TaskGet nat nat "nat option"
  | TaskTimeout nat
  | TaskAcquire nat nat "nat option"
  | TaskSpawned nat bool bool
  | TaskWaited nat
  | TaskSettled nat bool
  | ProcExit int
  | StopCurrentAudio
  | ClearQueue
  | StopAudioQueue

fun step :: "event \<Rightarrow> manager \<Rightarrow> manager" where
  "step (QueueAudio audio_file generated_text delete_after_play unique_file outcome) s =
     queue_audio audio_file generated_text delete_after_play unique_file outcome s"
| "step (TaskStart n) s =
     (if n < length (tasks s) \<and> tasks s ! n = Created
      then loop_next n (s\<lparr>is_processing_queue := True\<rparr>) else s)"
| "step (TaskGet n now mp3_length) s =
     (if n < length (tasks s) \<and> tasks s ! n = Getting then
        (case audio_queue s of
           [] \<Rightarrow> s
         | (audio_file, d) # rest \<Rightarrow>
             (case (if truthy audio_file then audio_file else None) of
                Some f \<Rightarrow> play_audio n f d now mp3_length (s\<lparr>audio_queue := rest\<rparr>)
              | None \<Rightarrow> loop_next n (s\<lparr>audio_queue := rest\<rparr>)))
      else s)"
| "step (TaskTimeout n) s =
     (if n < length (tasks s) \<and> tasks s ! n = Getting \<and> audio_queue s = []
      then loop_next n s else s)"
| "step (TaskAcquire n now mp3_length) s =
     (if n < length (tasks s) \<and> \<not> playback_lock s \<and> lock_waiters s \<noteq> []
         \<and> hd (lock_waiters s) = n then
        (case tasks s ! n of
           LockWait f d \<Rightarrow> begin_play n f d now mp3_length (s\<lparr>lock_waiters := tl (lock_waiters s)\<rparr>)
         | _ \<Rightarrow> s)
      else s)"
| "step (TaskSpawned n spawn_ok rm_ok) s =
     (if n < length (tasks s) then
        (case tasks s ! n of
           Spawning f d \<Rightarrow>
             if spawn_ok then s\<lparr>current_process := Some Running, tasks := (tasks s)[n := Waiting f d]\<rparr>
             else end_play n f d rm_ok s
         | _ \<Rightarrow> s)
      else s)"
| "step (TaskWaited n) s =
     (if n < length (tasks s) then
        (case tasks s ! n of
           Waiting f d \<Rightarrow>
             (case current_process s of
                Some (Exited rc) \<Rightarrow> s\<lparr>tasks := (tasks s)[n := Settling f d]\<rparr>
              | _ \<Rightarrow> s)
         | _ \<Rightarrow> s)
      else s)"
| "step (TaskSettled n rm_ok) s =
     (if n < length (tasks s) then
        (case tasks s ! n of
           Settling f d \<Rightarrow> end_play n f d rm_ok s
         | _ \<Rightarrow> s)
      else s)"
| "step (ProcExit rc) s =
     (case current_process s of
        Some Running \<Rightarrow> s\<lparr>current_process := Some (Exited rc)\<rparr>
      | _ \<Rightarrow> s)"
| "step StopCurrentAudio s =
     (case current_process s of
        Some Running \<Rightarrow> s\<lparr>current_process := Some (Exited (- 15))\<rparr>
      | _ \<Rightarrow> s)"
| "step ClearQueue s = s\<lparr>audio_queue := [], currently_queued_files := {}\<rparr>"
| "step StopAudioQueue s = s\<lparr>is_processing_queue := False\<rparr>"

fun exec :: "event list \<Rightarrow> manager \<Rightarrow> manager" where
  "exec [] s = s"
| "exec (e # es) s = exec es (step e s)"

inductive reachable :: "manager \<Rightarrow> bool" where
  reachable_init: "reachable (init fs)"
| reachable_step: "reachable s \<Longrightarrow> reachable (step e s)"

text \<open>
  Where a task stands: inside the critical section of \<open>play_audio\<close> (the playback lock is
  held), and with which file.
\<close>

fun critical :: "task \<Rightarrow> bool" where
  "critical (Spawning f d) = True"
| "critical (Waiting f d) = True"
| "critical (Settling f d) = True"
| "critical t = False"

fun task_file :: "task \<Rightarrow> string option" where
  "task_file (LockWait f d) = Some f"
| "task_file (Spawning f d) = Some f"
| "task_file (Waiting f d) = Some f"
| "task_file (Settling f d) = Some f"
| "task_file t = None"

fun lock_waiting :: "task \<Rightarrow> bool" where
  "lock_waiting (LockWait f d) = True"
| "lock_waiting t = False"

text \<open>The invariants of the manager, in groups.\<close>

definition excl :: "manager \<Rightarrow> bool" where
  "excl s =
     ((playback_lock s \<longleftrightarrow> (\<exists>n < length (tasks s). critical (tasks s ! n)))
      \<and> (\<forall>n < length (tasks s). \<forall>m < length (tasks s).
            critical (tasks s ! n) \<longrightarrow> critical (tasks s ! m) \<longrightarrow> n = m))"

definition playing_state :: "manager \<Rightarrow> bool" where
  "playing_state s =
     (is_playing s = playback_lock s \<and> is_speaking s = playback_lock s
      \<and> (current_audio_file s \<noteq> None) = playback_lock s
      \<and> (playback_start_time s \<noteq> None) = playback_lock s
      \<and> (expected_duration s \<noteq> None) = playback_lock s
      \<and> audio_complete s = (\<not> playback_lock s)
      \<and> (\<forall>n < length (tasks s). critical (tasks s ! n) \<longrightarrow>
            task_file (tasks s ! n) = current_audio_file s))"

definition process_state :: "manager \<Rightarrow> bool" where
  "process_state s =
     ((\<not> playback_lock s \<longrightarrow> current_process s = None)
      \<and> (\<forall>n < length (tasks s). \<forall>f d.
            (tasks s ! n = Spawning f d \<longrightarrow> current_process s = None)
          \<and> (tasks s ! n = Waiting f d \<longrightarrow> current_process s \<noteq> None)
          \<and> (tasks s ! n = Settling f d \<longrightarrow> (\<exists>rc. current_process s = Some (Exited rc)))))"

definition waiters_ok :: "manager \<Rightarrow> bool" where
  "waiters_ok s =
     (distinct (lock_waiters s)
      \<and> (\<forall>n. n \<in> set (lock_waiters s) \<longleftrightarrow> n < length (tasks s) \<and> lock_waiting (tasks s ! n)))"

definition names_ok :: "manager \<Rightarrow> bool" where
  "names_ok s =
     ([] \<notin> currently_queued_files s
      \<and> (\<forall>n < length (tasks s). task_file (tasks s ! n) \<noteq> Some []))"

definition consistent :: "manager \<Rightarrow> bool" where
  "consistent s = (excl s \<and> playing_state s \<and> process_state s \<and> waiters_ok s \<and> names_ok s)"

text \<open>
  The identities on their way to playback, oldest first: those already handed to
  \<open>play_audio\<close>'s critical section, those held by tasks waiting for the playback lock, and
  those in the queue.
\<close>

definition waiting_files :: "manager \<Rightarrow> string list" where
  "waiting_files s = List.map_filter (\<lambda>n. task_file (tasks s ! n)) (lock_waiters s)"

definition queued_files :: "manager \<Rightarrow> string list" where
  "queued_files s =
     List.map_filter (\<lambda>(audio_file, d). if truthy audio_file then audio_file else None) (audio_queue s)"

definition pipeline :: "manager \<Rightarrow> string list" where
  "pipeline s = played s @ waiting_files s @ queued_files s"

text \<open>The identity that a step asks to enqueue, if any.\<close>

fun requested :: "event \<Rightarrow> string list" where
  "requested (QueueAudio audio_file generated_text d unique_file outcome) =
     (if truthy generated_text \<and> \<not> truthy audio_file then
        (if outcome = Saved \<and> unique_file \<noteq> [] then [unique_file] else [])
      else (case audio_file of Some f \<Rightarrow> if f \<noteq> [] then [f] else [] | None \<Rightarrow> []))"
| "requested e = []"


section \<open>Verification: the deduplication engine\<close>

subsection \<open>Base response identifiers\<close>

lemma split_dash_nonempty: "split_dash s \<noteq> []"
  by (induction s) (auto split: list.splits)

lemma split_dash_no_dash: "CHR ''-'' \<notin> set s \<Longrightarrow> split_dash s = [s]"
  by (induction s) auto

lemma split_dash_append:
  "CHR ''-'' \<notin> set base \<Longrightarrow> split_dash (base @ CHR ''-'' # rest) = base # split_dash rest"
  by (induction base) auto

lemma str_contains_append: "str_contains n (pre @ n)"
  by (induction pre) (auto simp: prefix_def, (cases n; simp)+)

lemma split_two_parts:
  assumes "CHR ''-'' \<notin> set base" "CHR ''-'' \<notin> set suf"
  shows "split_dash (base @ CHR ''-'' # suf) = [base, suf]"
  using assms by (simp add: split_dash_append split_dash_no_dash)

lemma base_id_short: "length (split_dash rid) \<le> 2 \<Longrightarrow> get_base_response_id rid = rid"
  by (simp add: get_base_response_id_def Let_def)

text \<open>
  Claim C10. \<open>_get_base_response_id\<close> strips a known suffix only from an identifier
  of more than two dash-separated parts. For a base without a dash the identifiers
  \<open>base-oneshot\<close> and \<open>base-complete\<close> are therefore their own base identifiers: the
  draft is spoken and stored under \<open>base-oneshot\<close>, the final chunk looks
  \<open>base-complete\<close> up, finds nothing, leaves the stored draft where it is, and hands
  the whole cleaned final text to the queue.
\<close>

theorem C10_base_id_two_parts:
  assumes nodash: "CHR ''-'' \<notin> set base"
    and am: "audio_manager p"
    and fresh: "oneshot_raw_texts p (base @ ''-complete'') = None"
  shows "(\<forall>rid. length (split_dash rid) \<le> 2 \<longrightarrow> get_base_response_id rid = rid)
       \<and> (\<forall>suf \<in> set known_suffixes. get_base_response_id (base @ ''-'' @ suf) = base @ ''-'' @ suf)
       \<and> snd (process_chunk p draft (base @ ''-oneshot'') False) = queue_for_tts (clean_text_for_tts draft)
       \<and> (let p1 = fst (process_chunk p draft (base @ ''-oneshot'') False) in
            oneshot_raw_texts p1 (base @ ''-oneshot'') = Some draft
          \<and> oneshot_raw_texts p1 (base @ ''-complete'') = None
          \<and> process_chunk p1 final (base @ ''-complete'') True
              = (p1, queue_for_tts (clean_text_for_tts final)))"
proof -
  have short: "\<forall>rid. length (split_dash rid) \<le> 2 \<longrightarrow> get_base_response_id rid = rid"
    by (simp add: base_id_short)
  have two: "length (split_dash (base @ ''-'' @ suf)) \<le> 2" if "suf \<in> set known_suffixes" for suf
  proof -
    from that have "CHR ''-'' \<notin> set suf" by (auto simp: known_suffixes_def)
    with nodash show ?thesis by (simp add: split_two_parts)
  qed
  have sufs: "\<forall>suf \<in> set known_suffixes. get_base_response_id (base @ ''-'' @ suf) = base @ ''-'' @ suf"
    using two base_id_short by blast
  have b1: "get_base_response_id (base @ ''-oneshot'') = base @ ''-oneshot''"
    using sufs by (simp add: known_suffixes_def)
  have b2: "get_base_response_id (base @ ''-complete'') = base @ ''-complete''"
    using sufs by (simp add: known_suffixes_def)
  have c: "str_contains ''oneshot'' (base @ ''-oneshot'')"
    using str_contains_append [of "''oneshot''" "base @ ''-''"] by simp
  have p1: "fst (process_chunk p draft (base @ ''-oneshot'') False)
      = p\<lparr>oneshot_raw_texts := (oneshot_raw_texts p)(base @ ''-oneshot'' \<mapsto> draft)\<rparr>"
    using am c by (simp add: process_chunk_def b1)
  have ne: "base @ ''-complete'' \<noteq> base @ ''-oneshot''" by simp
  have o1: "snd (process_chunk p draft (base @ ''-oneshot'') False) = queue_for_tts (clean_text_for_tts draft)"
    using am c by (simp add: process_chunk_def b1)
  show ?thesis
    unfolding Let_def p1
    using short sufs am fresh ne o1 by (simp add: process_chunk_def b2)
qed

theorem C10_base_id_two_parts_witness:
  "get_base_response_id ''resp1-oneshot'' = ''resp1-oneshot''
   \<and> process_chunk (fst (process_chunk \<lparr>audio_manager = True, oneshot_raw_texts = Map.empty\<rparr>
                      ''Hello there'' ''resp1-oneshot'' False))
        ''Hello there, friend'' ''resp1-complete'' True
      = (\<lparr>audio_manager = True, oneshot_raw_texts = [''resp1-oneshot'' \<mapsto> ''Hello there'']\<rparr>,
         Some ''Hello there, friend'')"
proof -
  have h1: "CHR ''-'' \<notin> set ''resp1''" by simp
  have h2: "audio_manager \<lparr>audio_manager = True, oneshot_raw_texts = Map.empty\<rparr>" by simp
  have h3: "oneshot_raw_texts \<lparr>audio_manager = True, oneshot_raw_texts = Map.empty\<rparr> (''resp1'' @ ''-complete'') = None"
    by simp
  have cl: "queue_for_tts (clean_text_for_tts ''Hello there, friend'') = Some ''Hello there, friend''"
    by code_simp
  have st: "fst (process_chunk \<lparr>audio_manager = True, oneshot_raw_texts = Map.empty\<rparr>
                      ''Hello there'' ''resp1-oneshot'' False) = \<lparr>audio_manager = True, oneshot_raw_texts = [''resp1-oneshot'' \<mapsto> ''Hello there'']\<rparr>"
    by (simp add: process_chunk_def get_base_response_id_def known_suffixes_def)
  show ?thesis
    using C10_base_id_two_parts [OF h1 h2 h3, of "''Hello there''" "''Hello there, friend''"] cl st
    by (simp add: known_suffixes_def Let_def)
qed


























subsection \<open>The two extension loops\<close>

declare extend_left.simps [simp del] extend_right.simps [simp del]



subsection \<open>What find\_longest\_match returns\<close>







subsection \<open>A text matched against itself\<close>





lemma inner_loop_state:
  "inner_loop prev i js st = (fst (inner_loop prev i js st), snd (inner_loop prev i js st))"
  by simp








subsection \<open>Reconciling a final chunk with its stored draft\<close>




lemma process_chunk_final_with_draft:
  assumes "audio_manager p"
    and "oneshot_raw_texts p (get_base_response_id rid) = Some draft"
    and "find_longest_match (lower draft) (lower text) = (mi, mj, k)"
  shows "process_chunk p text rid True =
     (p\<lparr>oneshot_raw_texts := (oneshot_raw_texts p)(get_base_response_id rid := None)\<rparr>,
      if 5 * k > 4 * length draft then
        (if strip (drop (mj + k) text) = [] then None
         else queue_for_tts (clean_text_for_tts (strip (drop (mj + k) text))))
      else queue_for_tts (clean_text_for_tts text))"
  using assms by (simp add: process_chunk_def Let_def)




text \<open>
  With a final text of 200 characters or more the match need not be the longest common
  substring: every character of the draft is popular in the final text, the index is empty,
  and the match found has size 0 although the draft occurs in the final text in full.
\<close>

lemma autojunk_hides_match:
  "find_longest_match (replicate 10 CHR ''a'') (CHR ''z'' # replicate 250 CHR ''a'') = (0, 0, 0)
   \<and> common_substring (replicate 10 CHR ''a'') (CHR ''z'' # replicate 250 CHR ''a'') 0 1 10"
proof -
  have "find_longest_match (replicate 10 CHR ''a'') (CHR ''z'' # replicate 250 CHR ''a'') = (0, 0, 0)"
    by code_simp
  moreover have "common_substring (replicate 10 CHR ''a'') (CHR ''z'' # replicate 250 CHR ''a'') 0 1 10"
    by (simp add: common_substring_def)
  ultimately show ?thesis ..
qed



subsection \<open>Life time of a stored draft\<close>

lemma process_chunk_buffer:
  "oneshot_raw_texts (fst (process_chunk p t rid c)) =
     (if \<not> audio_manager p then oneshot_raw_texts p
      else if \<not> c \<and> str_contains ''oneshot'' rid
        then (oneshot_raw_texts p)(get_base_response_id rid \<mapsto> t)
      else if c then (oneshot_raw_texts p)(get_base_response_id rid := None)
      else oneshot_raw_texts p)"
proof (cases "audio_manager p \<and> c")
  case False
  then show ?thesis by (simp add: process_chunk_def Let_def)
next
  case True
  show ?thesis
  proof (cases "oneshot_raw_texts p (get_base_response_id rid)")
    case None
    then have "(oneshot_raw_texts p)(get_base_response_id rid := None) = oneshot_raw_texts p"
      by (simp add: fun_upd_idem_iff)
    with True None show ?thesis by (simp add: process_chunk_def Let_def)
  next
    case (Some draft)
    obtain mi mj k where "find_longest_match (lower draft) (lower t) = (mi, mj, k)"
      by (cases "find_longest_match (lower draft) (lower t)") auto
    from process_chunk_final_with_draft [OF _ Some this] True show ?thesis by simp
  qed
qed

lemma process_chunk_keeps_other_drafts:
  assumes "oneshot_raw_texts p b \<noteq> None"
    and "\<not> (is_complete \<and> get_base_response_id rid = b)"
  shows "oneshot_raw_texts (fst (process_chunk p t rid is_complete)) b \<noteq> None"
  using assms by (auto simp: process_chunk_buffer)

lemma process_chunk_final_removes:
  "audio_manager p \<Longrightarrow>
   oneshot_raw_texts (fst (process_chunk p t rid True)) (get_base_response_id rid) = None"
  by (simp add: process_chunk_buffer)

lemma process_chunk_audio_manager:
  "audio_manager (fst (process_chunk p t rid c)) = audio_manager p"
proof (cases "audio_manager p \<and> c")
  case False
  then show ?thesis by (simp add: process_chunk_def Let_def)
next
  case True
  show ?thesis
  proof (cases "oneshot_raw_texts p (get_base_response_id rid)")
    case None
    with True show ?thesis by (simp add: process_chunk_def Let_def)
  next
    case (Some draft)
    obtain mi mj k where "find_longest_match (lower draft) (lower t) = (mi, mj, k)"
      by (cases "find_longest_match (lower draft) (lower t)") auto
    from process_chunk_final_with_draft [OF _ Some this] True show ?thesis by simp
  qed
qed

text \<open>
  Claim C9, as the code has it. The processor keeps no arrival time and runs no timer: the
  dictionary changes only in \<open>process_chunk\<close> and \<open>reset_conversation\<close>. A stored draft
  stays through every sequence of chunks that holds no final chunk for its base
  identifier; it goes with the final chunk for its base identifier, or with a reset, which
  empties the dictionary.
\<close>

theorem C9_draft_kept_until_final_or_reset:
  assumes stored: "oneshot_raw_texts p b \<noteq> None"
    and nofinal: "\<forall>(t, rid, is_complete) \<in> set cs. \<not> (is_complete \<and> get_base_response_id rid = b)"
  shows "oneshot_raw_texts (process_chunks p cs) b \<noteq> None
       \<and> (audio_manager p \<and> get_base_response_id rid' = b \<longrightarrow>
            oneshot_raw_texts (fst (process_chunk (process_chunks p cs) t' rid' True)) b = None)
       \<and> oneshot_raw_texts (reset_conversation (process_chunks p cs)) = Map.empty"
proof -
  have keep: "oneshot_raw_texts (process_chunks p cs) b \<noteq> None"
    using stored nofinal
  proof (induction cs arbitrary: p)
    case Nil
    then show ?case by simp
  next
    case (Cons c cs)
    obtain t rid ic where c: "c = (t, rid, ic)" by (cases c) auto
    from Cons.prems c have "\<not> (ic \<and> get_base_response_id rid = b)" by simp
    from process_chunk_keeps_other_drafts [OF Cons.prems(1) this]
    have "oneshot_raw_texts (fst (process_chunk p t rid ic)) b \<noteq> None" .
    moreover from Cons.prems have
      "\<forall>(t, rid, is_complete) \<in> set cs. \<not> (is_complete \<and> get_base_response_id rid = b)" by simp
    ultimately show ?case using Cons.IH by (simp add: c)
  qed
  have am: "audio_manager (process_chunks p cs) = audio_manager p"
  proof (induction cs arbitrary: p)
    case Nil
    show ?case by simp
  next
    case (Cons c cs)
    obtain t rid ic where c: "c = (t, rid, ic)" by (cases c) auto
    show ?case unfolding c process_chunks.simps Cons.IH by (rule process_chunk_audio_manager)
  qed
  have fin: "audio_manager p \<and> get_base_response_id rid' = b \<longrightarrow>
      oneshot_raw_texts (fst (process_chunk (process_chunks p cs) t' rid' True)) b = None"
  proof
    assume a: "audio_manager p \<and> get_base_response_id rid' = b"
    then have "audio_manager (process_chunks p cs)" by (simp only: am)
    then have "oneshot_raw_texts (fst (process_chunk (process_chunks p cs) t' rid' True))
        (get_base_response_id rid') = None"
      by (rule process_chunk_final_removes)
    with a show "oneshot_raw_texts (fst (process_chunk (process_chunks p cs) t' rid' True)) b = None"
      by simp
  qed
  have rst: "oneshot_raw_texts (reset_conversation (process_chunks p cs)) = Map.empty"
    by (simp add: reset_conversation_def)
  from keep fin rst show ?thesis by blast
qed

theorem C9_draft_kept_until_final_or_reset_witness:
  "oneshot_raw_texts (process_chunks
       \<lparr>audio_manager = True, oneshot_raw_texts = [''a-1'' \<mapsto> ''Hi there'']\<rparr>
       [(''One'', ''a-2-oneshot'', False), (''One two'', ''a-2-complete'', True)]) ''a-1'' \<noteq> None
   \<and> oneshot_raw_texts (fst (process_chunk (process_chunks
       \<lparr>audio_manager = True, oneshot_raw_texts = [''a-1'' \<mapsto> ''Hi there'']\<rparr>
       [(''One'', ''a-2-oneshot'', False), (''One two'', ''a-2-complete'', True)])
       ''Hi there, all'' ''a-1-complete'' True)) ''a-1'' = None"
proof -
  let ?p = "\<lparr>audio_manager = True, oneshot_raw_texts = [''a-1'' \<mapsto> ''Hi there'']\<rparr>"
  let ?cs = "[(''One'', ''a-2-oneshot'', False), (''One two'', ''a-2-complete'', True)]"
  have b1: "get_base_response_id ''a-2-complete'' = ''a-2''" by code_simp
  have b2: "get_base_response_id ''a-1-complete'' = ''a-1''" by code_simp
  have h1: "oneshot_raw_texts ?p ''a-1'' \<noteq> None" by simp
  have h2: "\<forall>(t, rid, is_complete) \<in> set ?cs. \<not> (is_complete \<and> get_base_response_id rid = ''a-1'')"
    by (simp add: b1)
  from C9_draft_kept_until_final_or_reset [OF h1 h2, of "''a-1-complete''" "''Hi there, all''"] b2
  show ?thesis by simp
qed

text \<open>
  A draft whose final chunk never arrives: two later responses are drafted and completed
  and the draft is still in the dictionary.
\<close>

theorem C9_idle_draft_counterexample:
  "oneshot_raw_texts (process_chunks \<lparr>audio_manager = True, oneshot_raw_texts = Map.empty\<rparr>
      [(''Hi there'', ''a-1-oneshot'', False),
       (''One'', ''a-2-oneshot'', False), (''One two'', ''a-2-complete'', True),
       (''Three'', ''a-3-oneshot'', False), (''Three four'', ''a-3-complete'', True)]) ''a-1''
     = Some ''Hi there''"
  by code_simp



section \<open>Verification: the playback queue manager\<close>

subsection \<open>The invariants hold in every reachable state\<close>

lemma consistent_init: "consistent (init fs)"
  by (simp add: consistent_def excl_def playing_state_def process_state_def waiters_ok_def
      names_ok_def init_def)

lemma critical_not_waiting: "critical t \<Longrightarrow> \<not> lock_waiting t"
  by (cases t) auto

lemma consistent_enqueue_file: "consistent s \<Longrightarrow> consistent (enqueue_file audio_file d s)"
  unfolding consistent_def excl_def playing_state_def process_state_def waiters_ok_def
    names_ok_def enqueue_file_def Let_def
  by (cases audio_file) (auto simp: nth_append less_Suc_eq)

lemma consistent_queue_audio:
  "consistent s \<Longrightarrow> consistent (queue_audio audio_file generated_text d unique_file outcome s)"
proof -
  assume c: "consistent s"
  have f: "consistent (s\<lparr>files := X\<rparr>)" for X
    using c by (simp add: consistent_def excl_def playing_state_def process_state_def
        waiters_ok_def names_ok_def)
  show ?thesis
    by (cases outcome) (simp_all add: queue_audio_def consistent_enqueue_file c f)
qed

lemma consistent_loop_next:
  assumes c: "consistent s"
    and h: "n < length (tasks s)" "\<not> critical (tasks s ! n)" "\<not> lock_waiting (tasks s ! n)"
  shows "consistent (loop_next n s)"
proof -
  from c have e: "excl s" and p: "playing_state s" and r: "process_state s"
    and w: "waiters_ok s" and m: "names_ok s"
    by (simp_all add: consistent_def)
  note nw = critical_not_waiting [of "tasks s ! n"]
  have ge: "excl (loop_next n s)"
    using e h unfolding excl_def loop_next_def
    by (auto simp: nth_list_update)
  have gp: "playing_state (loop_next n s)"
    using e p h unfolding excl_def playing_state_def loop_next_def
    by (auto simp: nth_list_update)
  have gr: "process_state (loop_next n s)"
    using e r h unfolding excl_def process_state_def loop_next_def
    by (auto simp: nth_list_update)
  have gw: "waiters_ok (loop_next n s)"
    using e w h nw unfolding excl_def waiters_ok_def loop_next_def
    by (auto simp: nth_list_update)
  have gm: "names_ok (loop_next n s)"
    using e m h unfolding excl_def names_ok_def loop_next_def
    by (auto simp: nth_list_update)
  from ge gp gr gw gm show ?thesis by (simp add: consistent_def)
qed

lemma consistent_loop_start:
  assumes c: "consistent s"
    and h: "n < length (tasks s)"
    and heq: "tasks s ! n = Created"
  shows "consistent (loop_next n (s\<lparr>is_processing_queue := True\<rparr>))"
proof -
  from c have e: "excl s" and p: "playing_state s" and r: "process_state s"
    and w: "waiters_ok s" and m: "names_ok s"
    by (simp_all add: consistent_def)
  from heq have k: "critical (tasks s ! n) = False" "lock_waiting (tasks s ! n) = False"
    "task_file (tasks s ! n) = None"
    by simp_all
  note nw = critical_not_waiting [of "tasks s ! n"]
  have ge: "excl (loop_next n (s\<lparr>is_processing_queue := True\<rparr>))"
    using e h k unfolding excl_def loop_next_def
    by (auto simp: nth_list_update)
  have gp: "playing_state (loop_next n (s\<lparr>is_processing_queue := True\<rparr>))"
    using e p h k unfolding excl_def playing_state_def loop_next_def
    by (auto simp: nth_list_update)
  have gr: "process_state (loop_next n (s\<lparr>is_processing_queue := True\<rparr>))"
    using e r h k unfolding excl_def process_state_def loop_next_def
    by (auto simp: nth_list_update)
  have gw: "waiters_ok (loop_next n (s\<lparr>is_processing_queue := True\<rparr>))"
    using e w h k nw unfolding excl_def waiters_ok_def loop_next_def
    by (auto simp: nth_list_update)
  have gm: "names_ok (loop_next n (s\<lparr>is_processing_queue := True\<rparr>))"
    using e m h k unfolding excl_def names_ok_def loop_next_def
    by (auto simp: nth_list_update)
  from ge gp gr gw gm show ?thesis by (simp add: consistent_def)
qed

lemma consistent_loop_skip:
  assumes c: "consistent s"
    and h: "n < length (tasks s)"
    and heq: "tasks s ! n = Getting"
  shows "consistent (loop_next n (s\<lparr>audio_queue := q\<rparr>))"
proof -
  from c have e: "excl s" and p: "playing_state s" and r: "process_state s"
    and w: "waiters_ok s" and m: "names_ok s"
    by (simp_all add: consistent_def)
  from heq have k: "critical (tasks s ! n) = False" "lock_waiting (tasks s ! n) = False"
    "task_file (tasks s ! n) = None"
    by simp_all
  note nw = critical_not_waiting [of "tasks s ! n"]
  have ge: "excl (loop_next n (s\<lparr>audio_queue := q\<rparr>))"
    using e h k unfolding excl_def loop_next_def
    by (auto simp: nth_list_update)
  have gp: "playing_state (loop_next n (s\<lparr>audio_queue := q\<rparr>))"
    using e p h k unfolding excl_def playing_state_def loop_next_def
    by (auto simp: nth_list_update)
  have gr: "process_state (loop_next n (s\<lparr>audio_queue := q\<rparr>))"
    using e r h k unfolding excl_def process_state_def loop_next_def
    by (auto simp: nth_list_update)
  have gw: "waiters_ok (loop_next n (s\<lparr>audio_queue := q\<rparr>))"
    using e w h k nw unfolding excl_def waiters_ok_def loop_next_def
    by (auto simp: nth_list_update)
  have gm: "names_ok (loop_next n (s\<lparr>audio_queue := q\<rparr>))"
    using e m h k unfolding excl_def names_ok_def loop_next_def
    by (auto simp: nth_list_update)
  from ge gp gr gw gm show ?thesis by (simp add: consistent_def)
qed

lemma consistent_play_audio:
  assumes c: "consistent s"
    and h: "n < length (tasks s)" "f \<noteq> []"
    and heq: "tasks s ! n = Getting"
  shows "consistent (play_audio n f d now mp3_length (s\<lparr>audio_queue := q\<rparr>))"
proof -
  from c have e: "excl s" and p: "playing_state s" and r: "process_state s"
    and w: "waiters_ok s" and m: "names_ok s"
    by (simp_all add: consistent_def)
  from heq have k: "critical (tasks s ! n) = False" "lock_waiting (tasks s ! n) = False"
    "task_file (tasks s ! n) = None"
    by simp_all
  note nw = critical_not_waiting [of "tasks s ! n"]
  have ge: "excl (play_audio n f d now mp3_length (s\<lparr>audio_queue := q\<rparr>))"
    using e h k unfolding excl_def play_audio_def begin_play_def
    by (auto simp: nth_list_update)
  have gp: "playing_state (play_audio n f d now mp3_length (s\<lparr>audio_queue := q\<rparr>))"
    using e p h k unfolding excl_def playing_state_def play_audio_def begin_play_def
    by (auto simp: nth_list_update)
  have gr: "process_state (play_audio n f d now mp3_length (s\<lparr>audio_queue := q\<rparr>))"
    using e r h k unfolding excl_def process_state_def play_audio_def begin_play_def
    by (auto simp: nth_list_update)
  have gw: "waiters_ok (play_audio n f d now mp3_length (s\<lparr>audio_queue := q\<rparr>))"
    using e w h k nw unfolding excl_def waiters_ok_def play_audio_def begin_play_def
    by (auto simp: nth_list_update)
  have gm: "names_ok (play_audio n f d now mp3_length (s\<lparr>audio_queue := q\<rparr>))"
    using e m h k unfolding excl_def names_ok_def play_audio_def begin_play_def
    by (auto simp: nth_list_update)
  from ge gp gr gw gm show ?thesis by (simp add: consistent_def)
qed

lemma consistent_acquire:
  assumes c: "consistent s"
    and h: "n < length (tasks s)" "lock_waiters s = n # ws" "\<not> playback_lock s"
    and heq: "tasks s ! n = LockWait f d"
  shows "consistent (begin_play n f d now mp3_length (s\<lparr>lock_waiters := ws\<rparr>))"
proof -
  from c have e: "excl s" and p: "playing_state s" and r: "process_state s"
    and w: "waiters_ok s" and m: "names_ok s"
    by (simp_all add: consistent_def)
  from heq have k: "critical (tasks s ! n) = False" "lock_waiting (tasks s ! n) = True"
    "task_file (tasks s ! n) = Some f"
    by simp_all
  note nw = critical_not_waiting [of "tasks s ! n"]
  have ge: "excl (begin_play n f d now mp3_length (s\<lparr>lock_waiters := ws\<rparr>))"
    using e h k unfolding excl_def begin_play_def
    by (auto simp: nth_list_update)
  have gp: "playing_state (begin_play n f d now mp3_length (s\<lparr>lock_waiters := ws\<rparr>))"
    using e p h k unfolding excl_def playing_state_def begin_play_def
    by (auto simp: nth_list_update)
  have gr: "process_state (begin_play n f d now mp3_length (s\<lparr>lock_waiters := ws\<rparr>))"
    using e r h k unfolding excl_def process_state_def begin_play_def
    by (auto simp: nth_list_update)
  have gw: "waiters_ok (begin_play n f d now mp3_length (s\<lparr>lock_waiters := ws\<rparr>))"
    using e w h k nw unfolding excl_def waiters_ok_def begin_play_def
    by (auto simp: nth_list_update)
  have gm: "names_ok (begin_play n f d now mp3_length (s\<lparr>lock_waiters := ws\<rparr>))"
    using e m h k unfolding excl_def names_ok_def begin_play_def
    by (auto simp: nth_list_update)
  from ge gp gr gw gm show ?thesis by (simp add: consistent_def)
qed

lemma consistent_spawned:
  assumes c: "consistent s"
    and h: "n < length (tasks s)"
    and heq: "tasks s ! n = Spawning f d"
  shows "consistent (s\<lparr>current_process := Some Running, tasks := (tasks s)[n := Waiting f d]\<rparr>)"
proof -
  from c have e: "excl s" and p: "playing_state s" and r: "process_state s"
    and w: "waiters_ok s" and m: "names_ok s"
    by (simp_all add: consistent_def)
  from heq have k: "critical (tasks s ! n) = True" "lock_waiting (tasks s ! n) = False"
    "task_file (tasks s ! n) = Some f"
    by simp_all
  note nw = critical_not_waiting [of "tasks s ! n"]
  have ge: "excl (s\<lparr>current_process := Some Running, tasks := (tasks s)[n := Waiting f d]\<rparr>)"
    using e h k unfolding excl_def
    by (auto simp: nth_list_update)
  have gp: "playing_state (s\<lparr>current_process := Some Running, tasks := (tasks s)[n := Waiting f d]\<rparr>)"
    using e p h k unfolding excl_def playing_state_def
    by (auto simp: nth_list_update)
  have gr: "process_state (s\<lparr>current_process := Some Running, tasks := (tasks s)[n := Waiting f d]\<rparr>)"
    using e r h k unfolding excl_def process_state_def
    by (auto simp: nth_list_update)
  have gw: "waiters_ok (s\<lparr>current_process := Some Running, tasks := (tasks s)[n := Waiting f d]\<rparr>)"
    using e w h k nw unfolding excl_def waiters_ok_def
    by (auto simp: nth_list_update)
  have gm: "names_ok (s\<lparr>current_process := Some Running, tasks := (tasks s)[n := Waiting f d]\<rparr>)"
    using e m h k unfolding excl_def names_ok_def
    by (auto simp: nth_list_update)
  from ge gp gr gw gm show ?thesis by (simp add: consistent_def)
qed

lemma consistent_waited:
  assumes c: "consistent s"
    and h: "n < length (tasks s)" "current_process s = Some (Exited rc)"
    and heq: "tasks s ! n = Waiting f d"
  shows "consistent (s\<lparr>tasks := (tasks s)[n := Settling f d]\<rparr>)"
proof -
  from c have e: "excl s" and p: "playing_state s" and r: "process_state s"
    and w: "waiters_ok s" and m: "names_ok s"
    by (simp_all add: consistent_def)
  from heq have k: "critical (tasks s ! n) = True" "lock_waiting (tasks s ! n) = False"
    "task_file (tasks s ! n) = Some f"
    by simp_all
  note nw = critical_not_waiting [of "tasks s ! n"]
  have ge: "excl (s\<lparr>tasks := (tasks s)[n := Settling f d]\<rparr>)"
    using e h k unfolding excl_def
    by (auto simp: nth_list_update)
  have gp: "playing_state (s\<lparr>tasks := (tasks s)[n := Settling f d]\<rparr>)"
    using e p h k unfolding excl_def playing_state_def
    by (auto simp: nth_list_update)
  have gr: "process_state (s\<lparr>tasks := (tasks s)[n := Settling f d]\<rparr>)"
    using e r h k unfolding excl_def process_state_def
    by (auto simp: nth_list_update)
  have gw: "waiters_ok (s\<lparr>tasks := (tasks s)[n := Settling f d]\<rparr>)"
    using e w h k nw unfolding excl_def waiters_ok_def
    by (auto simp: nth_list_update)
  have gm: "names_ok (s\<lparr>tasks := (tasks s)[n := Settling f d]\<rparr>)"
    using e m h k unfolding excl_def names_ok_def
    by (auto simp: nth_list_update)
  from ge gp gr gw gm show ?thesis by (simp add: consistent_def)
qed

lemma consistent_end_play:
  assumes c: "consistent s"
    and h: "n < length (tasks s)" "critical (tasks s ! n)"
  shows "consistent (end_play n f d rm_ok s)"
proof -
  from c have e: "excl s" and p: "playing_state s" and r: "process_state s"
    and w: "waiters_ok s" and m: "names_ok s"
    by (simp_all add: consistent_def)
  note nw = critical_not_waiting [of "tasks s ! n"]
  have ge: "excl (end_play n f d rm_ok s)"
    using e h unfolding excl_def end_play_def loop_next_def
    by (auto simp: nth_list_update)
  have gp: "playing_state (end_play n f d rm_ok s)"
    using e p h unfolding excl_def playing_state_def end_play_def loop_next_def
    by (auto simp: nth_list_update)
  have gr: "process_state (end_play n f d rm_ok s)"
    using e r h unfolding excl_def process_state_def end_play_def loop_next_def
    by (auto simp: nth_list_update)
  have gw: "waiters_ok (end_play n f d rm_ok s)"
    using e w h nw unfolding excl_def waiters_ok_def end_play_def loop_next_def
    by (auto simp: nth_list_update)
  have gm: "names_ok (end_play n f d rm_ok s)"
    using e m h unfolding excl_def names_ok_def end_play_def loop_next_def
    by (auto simp: nth_list_update)
  from ge gp gr gw gm show ?thesis by (simp add: consistent_def)
qed

lemma consistent_exit:
  assumes c: "consistent s"
    and h: "current_process s = Some Running"
  shows "consistent (s\<lparr>current_process := Some (Exited rc)\<rparr>)"
proof -
  from c have e: "excl s" and p: "playing_state s" and r: "process_state s"
    and w: "waiters_ok s" and m: "names_ok s"
    by (simp_all add: consistent_def)
  have ge: "excl (s\<lparr>current_process := Some (Exited rc)\<rparr>)"
    using e h unfolding excl_def
    by (auto simp: nth_list_update)
  have gp: "playing_state (s\<lparr>current_process := Some (Exited rc)\<rparr>)"
    using e p h unfolding excl_def playing_state_def
    by (auto simp: nth_list_update)
  have gr: "process_state (s\<lparr>current_process := Some (Exited rc)\<rparr>)"
    using e r h unfolding excl_def process_state_def
    by (auto simp: nth_list_update)
  have gw: "waiters_ok (s\<lparr>current_process := Some (Exited rc)\<rparr>)"
    using e w h unfolding excl_def waiters_ok_def
    by (auto simp: nth_list_update)
  have gm: "names_ok (s\<lparr>current_process := Some (Exited rc)\<rparr>)"
    using e m h unfolding excl_def names_ok_def
    by (auto simp: nth_list_update)
  from ge gp gr gw gm show ?thesis by (simp add: consistent_def)
qed

lemma step_TaskAcquire:
  "step (TaskAcquire n now mp3_length) s =
     (case lock_waiters s of
        [] \<Rightarrow> s
      | w # ws \<Rightarrow>
          if w = n \<and> n < length (tasks s) \<and> \<not> playback_lock s then
            (case tasks s ! n of
               LockWait f d \<Rightarrow> begin_play n f d now mp3_length (s\<lparr>lock_waiters := ws\<rparr>)
             | _ \<Rightarrow> s)
          else s)"
  by (cases "lock_waiters s") (auto split: task.splits)

lemma consistent_step: "consistent s \<Longrightarrow> consistent (step e s)"
proof (cases e)
  case (QueueAudio audio_file generated_text d unique_file outcome)
  assume "consistent s"
  then show ?thesis unfolding QueueAudio by (simp add: consistent_queue_audio)
next
  case (TaskStart n)
  assume "consistent s"
  then show ?thesis unfolding TaskStart by (simp add: consistent_loop_start)
next
  case (TaskGet n now mp3_length)
  assume c: "consistent s"
  show ?thesis
  proof (cases "n < length (tasks s) \<and> tasks s ! n = Getting")
    case False
    with c show ?thesis unfolding TaskGet by auto
  next
    case True
    show ?thesis
    proof (cases "audio_queue s")
      case Nil
      with c True show ?thesis unfolding TaskGet by simp
    next
      case (Cons item rest)
      obtain audio_file d where item: "item = (audio_file, d)" by (cases item) auto
      show ?thesis
      proof (cases "truthy audio_file")
        case False
        with c True Cons item show ?thesis unfolding TaskGet
          by (simp add: consistent_loop_skip)
      next
        case truthy: True
        then obtain f where f: "audio_file = Some f" "f \<noteq> []" by (cases audio_file) auto
        with c True Cons item show ?thesis unfolding TaskGet
          by (simp add: consistent_play_audio)
      qed
    qed
  qed
next
  case (TaskTimeout n)
  assume "consistent s"
  then show ?thesis unfolding TaskTimeout by (simp add: consistent_loop_next)
next
  case (TaskAcquire n now mp3_length)
  assume c: "consistent s"
  show ?thesis
  proof (cases "lock_waiters s")
    case Nil
    with c show ?thesis unfolding TaskAcquire step_TaskAcquire by simp
  next
    case (Cons w ws)
    show ?thesis
    proof (cases "tasks s ! n")
      case (LockWait f d)
      with c Cons show ?thesis unfolding TaskAcquire step_TaskAcquire
        by (simp add: consistent_acquire)
    qed (use c Cons in \<open>simp_all add: TaskAcquire step_TaskAcquire\<close>)
  qed
next
  case (TaskSpawned n spawn_ok rm_ok)
  assume c: "consistent s"
  show ?thesis
  proof (cases "tasks s ! n")
    case (Spawning f d)
    with c show ?thesis unfolding TaskSpawned
      by (simp add: consistent_spawned consistent_end_play)
  qed (use c in \<open>simp_all add: TaskSpawned\<close>)
next
  case (TaskWaited n)
  assume c: "consistent s"
  show ?thesis
  proof (cases "tasks s ! n")
    case (Waiting f d)
    with c show ?thesis unfolding TaskWaited
      by (auto simp: consistent_waited split: option.splits proc.splits)
  qed (use c in \<open>simp_all add: TaskWaited\<close>)
next
  case (TaskSettled n rm_ok)
  assume c: "consistent s"
  show ?thesis
  proof (cases "tasks s ! n")
    case (Settling f d)
    with c show ?thesis unfolding TaskSettled by (simp add: consistent_end_play)
  qed (use c in \<open>simp_all add: TaskSettled\<close>)
next
  case (ProcExit rc)
  assume "consistent s"
  then show ?thesis unfolding ProcExit
    by (auto simp: consistent_exit split: option.splits proc.splits)
next
  case StopCurrentAudio
  assume "consistent s"
  then show ?thesis unfolding StopCurrentAudio
    by (auto simp: consistent_exit split: option.splits proc.splits)
next
  case ClearQueue
  assume "consistent s"
  then show ?thesis unfolding ClearQueue
    by (simp add: consistent_def excl_def playing_state_def process_state_def waiters_ok_def
        names_ok_def)
next
  case StopAudioQueue
  assume "consistent s"
  then show ?thesis unfolding StopAudioQueue
    by (simp add: consistent_def excl_def playing_state_def process_state_def waiters_ok_def
        names_ok_def)
qed

lemma reachable_consistent: "reachable s \<Longrightarrow> consistent s"
  by (induction rule: reachable.induct) (simp_all add: consistent_init consistent_step)

lemma reachable_exec: "reachable s \<Longrightarrow> reachable (exec evs s)"
  by (induction evs arbitrary: s) (simp_all add: reachable_step)



subsection \<open>The playing flag\<close>

text \<open>
  Claim C6, as the code has it. In every reachable state \<open>is_playing\<close> is true exactly when
  \<open>current_audio_file\<close> is set, and exactly when some queue-processor task is inside the
  critical section of \<open>play_audio\<close>; at most one task is there, and its file is the current
  one. A playback subprocess exists only while \<open>is_playing\<close> is true. The converse does not
  hold: \<open>is_playing\<close> is set before the subprocess is spawned and stays set through the
  settle delay after it has exited.
\<close>

theorem C6_playing_flag:
  assumes "reachable s"
  shows "(is_playing s \<longleftrightarrow> current_audio_file s \<noteq> None)
       \<and> (is_playing s \<longleftrightarrow> (\<exists>n < length (tasks s). critical (tasks s ! n)))
       \<and> (\<forall>n < length (tasks s). \<forall>m < length (tasks s).
             critical (tasks s ! n) \<longrightarrow> critical (tasks s ! m) \<longrightarrow> n = m)
       \<and> (\<forall>n < length (tasks s). critical (tasks s ! n) \<longrightarrow>
             task_file (tasks s ! n) = current_audio_file s)
       \<and> (current_process s \<noteq> None \<longrightarrow> is_playing s)"
proof -
  from assms have "consistent s" by (rule reachable_consistent)
  then have e: "excl s" and p: "playing_state s" and r: "process_state s"
    by (simp_all add: consistent_def)
  from p have 1: "is_playing s \<longleftrightarrow> current_audio_file s \<noteq> None"
    by (simp add: playing_state_def)
  from e p have 2: "is_playing s \<longleftrightarrow> (\<exists>n < length (tasks s). critical (tasks s ! n))"
    by (simp add: playing_state_def excl_def)
  from e have 3: "\<forall>n < length (tasks s). \<forall>m < length (tasks s).
             critical (tasks s ! n) \<longrightarrow> critical (tasks s ! m) \<longrightarrow> n = m"
    by (simp add: excl_def)
  from p have 4: "\<forall>n < length (tasks s). critical (tasks s ! n) \<longrightarrow>
             task_file (tasks s ! n) = current_audio_file s"
    by (simp add: playing_state_def)
  from p r have 5: "current_process s \<noteq> None \<longrightarrow> is_playing s"
    by (auto simp: playing_state_def process_state_def)
  from 1 2 3 4 5 show ?thesis by blast
qed

text \<open>One file is queued, the task starts, takes it, and the player is spawned.\<close>

theorem C6_playing_flag_witness:
  "reachable (exec [QueueAudio (Some ''a.mp3'') None False [] Saved, TaskStart 0,
                    TaskGet 0 0 None, TaskSpawned 0 True True] (init {}))
   \<and> is_playing (exec [QueueAudio (Some ''a.mp3'') None False [] Saved, TaskStart 0,
                    TaskGet 0 0 None, TaskSpawned 0 True True] (init {}))
   \<and> current_audio_file (exec [QueueAudio (Some ''a.mp3'') None False [] Saved, TaskStart 0,
                    TaskGet 0 0 None, TaskSpawned 0 True True] (init {})) \<noteq> None"
proof -
  let ?s = "exec [QueueAudio (Some ''a.mp3'') None False [] Saved, TaskStart 0,
                    TaskGet 0 0 None, TaskSpawned 0 True True] (init {})"
  have r: "reachable ?s" by (rule reachable_exec) (rule reachable_init)
  have p: "current_process ?s \<noteq> None" by code_simp
  from C6_playing_flag [OF r] r p show ?thesis by blast
qed

text \<open>
  The state in which \<open>play_audio\<close> waits for \<open>create_subprocess_shell\<close>: the flag is set and
  the current file is set, and there is no playback subprocess.
\<close>

theorem C6_flag_without_process_counterexample:
  "reachable (exec [QueueAudio (Some ''a.mp3'') None False [] Saved, TaskStart 0,
                    TaskGet 0 0 None] (init {}))
   \<and> is_playing (exec [QueueAudio (Some ''a.mp3'') None False [] Saved, TaskStart 0,
                    TaskGet 0 0 None] (init {}))
   \<and> current_audio_file (exec [QueueAudio (Some ''a.mp3'') None False [] Saved, TaskStart 0,
                    TaskGet 0 0 None] (init {})) = Some ''a.mp3''
   \<and> current_process (exec [QueueAudio (Some ''a.mp3'') None False [] Saved, TaskStart 0,
                    TaskGet 0 0 None] (init {})) = None"
proof -
  let ?s = "exec [QueueAudio (Some ''a.mp3'') None False [] Saved, TaskStart 0,
                    TaskGet 0 0 None] (init {})"
  have r: "reachable ?s" by (rule reachable_exec) (rule reachable_init)
  have 1: "is_playing ?s" by code_simp
  have 2: "current_audio_file ?s = Some ''a.mp3''" by code_simp
  have 3: "current_process ?s = None" by code_simp
  from r 1 2 3 show ?thesis by blast
qed

subsection \<open>Queue-processor tasks\<close>

text \<open>
  Claim C8 at its failing input. \<open>queue_audio\<close> creates a queue-processor task whenever
  \<open>is_processing_queue\<close> is false, and the flag is set only by the task's own first step.
  Two files queued before the first task has run leave two created tasks, and both enter
  the loop.
\<close>

theorem C8_two_queue_processors:
  "tasks (exec [QueueAudio (Some ''a.mp3'') None False [] Saved,
                QueueAudio (Some ''b.mp3'') None False [] Saved] (init {})) = [Created, Created]
   \<and> tasks (exec [QueueAudio (Some ''a.mp3'') None False [] Saved,
                  QueueAudio (Some ''b.mp3'') None False [] Saved,
                  TaskStart 0, TaskStart 1] (init {})) = [Getting, Getting]"
  by code_simp



subsection \<open>Duplicate suppression\<close>

lemmas run_defs = queue_audio_def enqueue_file_def begin_play_def play_audio_def loop_next_def
  end_play_def init_def Let_def

lemma reachable_current_nonempty:
  assumes "reachable s" "current_audio_file s = Some f"
  shows "f \<noteq> []"
proof -
  from assms(1) have c: "consistent s" by (rule reachable_consistent)
  then have e: "excl s" and p: "playing_state s" and m: "names_ok s"
    by (simp_all add: consistent_def)
  from p assms(2) have "playback_lock s" by (auto simp: playing_state_def)
  with e obtain n where n: "n < length (tasks s)" "critical (tasks s ! n)"
    by (auto simp: excl_def)
  with p assms(2) have "task_file (tasks s ! n) = Some f" by (simp add: playing_state_def)
  with m n show ?thesis by (auto simp: names_ok_def)
qed

lemma reachable_pending_nonempty:
  assumes "reachable s" "f \<in> currently_queued_files s"
  shows "f \<noteq> []"
  using reachable_consistent [OF assms(1)] assms(2) by (auto simp: consistent_def names_ok_def)

lemma queue_audio_file:
  "f \<noteq> [] \<Longrightarrow> queue_audio (Some f) generated_text d unique_file outcome s = enqueue_file (Some f) d s"
  by (simp add: queue_audio_def)

lemma enqueue_file_duplicate:
  "f \<noteq> [] \<Longrightarrow> f \<in> currently_queued_files s \<or> current_audio_file s = Some f \<Longrightarrow>
   enqueue_file (Some f) d s = s"
  by (auto simp: enqueue_file_def)

lemma enqueue_file_pending:
  "f \<noteq> [] \<Longrightarrow>
   f \<in> currently_queued_files (enqueue_file (Some f) d s) \<or> current_audio_file (enqueue_file (Some f) d s) = Some f"
  by (auto simp: enqueue_file_def Let_def)

text \<open>
  Claim C2. In a reachable state, a call of \<open>queue_audio\<close> with an audio file that is in
  \<open>currently_queued_files\<close> or is the current file changes nothing: not the queue, not the
  pending set, and no task is created. Hence a second call with the same file right after
  a first one changes nothing, and whatever steps follow, the manager goes through the same
  states as after the first call alone.
\<close>

theorem C2_duplicate_enqueue_is_noop:
  assumes "reachable s"
  shows "(f \<in> currently_queued_files s \<or> current_audio_file s = Some f \<longrightarrow>
            queue_audio (Some f) generated_text d unique_file outcome s = s)
       \<and> (f \<noteq> [] \<longrightarrow>
            queue_audio (Some f) generated_text' d' unique_file' outcome'
              (queue_audio (Some f) generated_text d unique_file outcome s)
            = queue_audio (Some f) generated_text d unique_file outcome s)
       \<and> (f \<noteq> [] \<longrightarrow> (\<forall>evs.
            exec evs (queue_audio (Some f) generated_text' d' unique_file' outcome'
              (queue_audio (Some f) generated_text d unique_file outcome s))
            = exec evs (queue_audio (Some f) generated_text d unique_file outcome s)))"
proof -
  have 1: "f \<in> currently_queued_files s \<or> current_audio_file s = Some f \<longrightarrow>
            queue_audio (Some f) generated_text d unique_file outcome s = s"
  proof
    assume dup: "f \<in> currently_queued_files s \<or> current_audio_file s = Some f"
    then have "f \<noteq> []"
      using reachable_current_nonempty [OF assms] reachable_pending_nonempty [OF assms] by blast
    with dup show "queue_audio (Some f) generated_text d unique_file outcome s = s"
      by (simp add: queue_audio_file enqueue_file_duplicate)
  qed
  have 2: "queue_audio (Some f) generated_text' d' unique_file' outcome'
              (queue_audio (Some f) generated_text d unique_file outcome s)
            = queue_audio (Some f) generated_text d unique_file outcome s" if "f \<noteq> []"
    using that enqueue_file_pending [OF that, of d s]
    by (simp add: queue_audio_file enqueue_file_duplicate)
  from 1 2 show ?thesis by simp
qed

text \<open>
  The same file queued twice, and the queue processed to the end by the one task: the file
  is played once.
\<close>

theorem C2_duplicate_enqueue_is_noop_witness:
  "queue_audio (Some ''a.mp3'') None False [] Saved
     (exec [QueueAudio (Some ''a.mp3'') None False [] Saved] (init {}))
   = exec [QueueAudio (Some ''a.mp3'') None False [] Saved] (init {})
   \<and> played (exec [QueueAudio (Some ''a.mp3'') None False [] Saved,
                   QueueAudio (Some ''a.mp3'') None False [] Saved,
                   TaskStart 0, TaskGet 0 0 None, TaskSpawned 0 True True, ProcExit 0,
                   TaskWaited 0, TaskSettled 0 True, TaskGet 0 1 None, TaskTimeout 0] (init {}))
     = [''a.mp3'']"
proof -
  let ?s = "exec [QueueAudio (Some ''a.mp3'') None False [] Saved] (init {})"
  have r: "reachable ?s" by (rule reachable_exec) (rule reachable_init)
  have p: "''a.mp3'' \<in> currently_queued_files ?s" by (simp add: run_defs)
  have run: "played (exec [QueueAudio (Some ''a.mp3'') None False [] Saved,
                   QueueAudio (Some ''a.mp3'') None False [] Saved,
                   TaskStart 0, TaskGet 0 0 None, TaskSpawned 0 True True, ProcExit 0,
                   TaskWaited 0, TaskSettled 0 True, TaskGet 0 1 None, TaskTimeout 0] (init {}))
     = [''a.mp3'']"
    by (simp add: run_defs)
  have "''a.mp3'' \<in> currently_queued_files ?s \<or> current_audio_file ?s = Some ''a.mp3'' \<longrightarrow>
      queue_audio (Some ''a.mp3'') None False [] Saved ?s = ?s"
    by (rule C2_duplicate_enqueue_is_noop [OF r, THEN conjunct1])
  with p have "queue_audio (Some ''a.mp3'') None False [] Saved ?s = ?s" by blast
  then show ?thesis using run by (rule conjI)
qed



subsection \<open>The identity of synthesized text\<close>

lemma unique_name_nonempty: "generate_unique_audio_filename cache_dir ts unique \<noteq> []"
  by (simp add: generate_unique_audio_filename_def)

lemma enqueue_file_fresh:
  assumes "u \<noteq> []" "u \<notin> currently_queued_files s" "current_audio_file s \<noteq> Some u"
  shows "audio_queue (enqueue_file (Some u) d s) = audio_queue s @ [(Some u, d)]"
    and "currently_queued_files (enqueue_file (Some u) d s) = insert u (currently_queued_files s)"
    and "current_audio_file (enqueue_file (Some u) d s) = current_audio_file s"
  using assms by (simp_all add: enqueue_file_def Let_def)

text \<open>
  Claim C3, as the code has it. The identity of a task made from text is the file name that
  \<open>_generate_unique_audio_filename\<close> returns: it is made of the cache directory, the clock
  and a random UUID, and the text is not an argument of it. With the same generated name
  any two non-empty texts lead to the same queue, pending set and tasks; and two calls with
  the same text whose generated names are new and differ put two tasks into the queue.
\<close>

theorem C3_identity_is_generated_file_name:
  assumes nonempty: "text \<noteq> []"
    and u: "u = generate_unique_audio_filename cache_dir ts unique"
    and u': "u' = generate_unique_audio_filename cache_dir ts' unique'"
    and fresh: "u \<notin> currently_queued_files s" "current_audio_file s \<noteq> Some u"
    and fresh': "u' \<notin> currently_queued_files s" "current_audio_file s \<noteq> Some u'" "u' \<noteq> u"
  shows "audio_queue (queue_audio None (Some text) d u Saved s) = audio_queue s @ [(Some u, d)]
       \<and> currently_queued_files (queue_audio None (Some text) d u Saved s)
           = insert u (currently_queued_files s)
       \<and> (other \<noteq> [] \<longrightarrow>
            queue_audio None (Some other) d u Saved s = queue_audio None (Some text) d u Saved s)
       \<and> audio_queue (queue_audio None (Some text) d' u' Saved
                        (queue_audio None (Some text) d u Saved s))
           = audio_queue s @ [(Some u, d), (Some u', d')]"
proof -
  let ?s0 = "s\<lparr>files := insert u (files s)\<rparr>"
  let ?s1 = "queue_audio None (Some text) d u Saved s"
  have ne: "u \<noteq> []" "u' \<noteq> []" using u u' by (simp_all add: unique_name_nonempty)
  have s1: "?s1 = enqueue_file (Some u) d ?s0" using nonempty by (simp add: queue_audio_def)
  have f0: "u \<notin> currently_queued_files ?s0" "current_audio_file ?s0 \<noteq> Some u"
    using fresh by simp_all
  note e1 = enqueue_file_fresh [OF ne(1) f0]
  have 1: "audio_queue ?s1 = audio_queue s @ [(Some u, d)]" using e1(1) by (simp add: s1)
  have 2: "currently_queued_files ?s1 = insert u (currently_queued_files s)"
    using e1(2) by (simp add: s1)
  have 3: "other \<noteq> [] \<longrightarrow> queue_audio None (Some other) d u Saved s = ?s1"
    using nonempty by (simp add: queue_audio_def)
  let ?s2 = "?s1\<lparr>files := insert u' (files ?s1)\<rparr>"
  have f1: "u' \<notin> currently_queued_files ?s2" "current_audio_file ?s2 \<noteq> Some u'"
    using fresh' 2 e1(3) by (simp_all add: s1)
  have "queue_audio None (Some text) d' u' Saved ?s1 = enqueue_file (Some u') d' ?s2"
    using nonempty by (simp add: queue_audio_def)
  then have 4: "audio_queue (queue_audio None (Some text) d' u' Saved ?s1)
      = audio_queue s @ [(Some u, d), (Some u', d')]"
    using enqueue_file_fresh(1) [OF ne(2) f1] 1 by simp
  from 1 2 3 4 show ?thesis by blast
qed

theorem C3_identity_is_generated_file_name_witness:
  "audio_queue (queue_audio None (Some ''Hello'') True
        (generate_unique_audio_filename ''cache'' ''1700000000001'' ''0b'') Saved
        (queue_audio None (Some ''Hello'') True
           (generate_unique_audio_filename ''cache'' ''1700000000000'' ''0a'') Saved (init {})))
   = [(Some ''cache/tts_1700000000000_0a.mp3'', True), (Some ''cache/tts_1700000000001_0b.mp3'', True)]"
proof -
  have h: "''Hello'' \<noteq> []"
    "generate_unique_audio_filename ''cache'' ''1700000000000'' ''0a'' \<notin> currently_queued_files (init {})"
    "current_audio_file (init {}) \<noteq> Some (generate_unique_audio_filename ''cache'' ''1700000000000'' ''0a'')"
    "generate_unique_audio_filename ''cache'' ''1700000000001'' ''0b'' \<notin> currently_queued_files (init {})"
    "current_audio_file (init {}) \<noteq> Some (generate_unique_audio_filename ''cache'' ''1700000000001'' ''0b'')"
    "generate_unique_audio_filename ''cache'' ''1700000000001'' ''0b''
       \<noteq> generate_unique_audio_filename ''cache'' ''1700000000000'' ''0a''"
    by (simp_all add: init_def generate_unique_audio_filename_def)
  have q: "audio_queue (init {}) = []" by (simp add: init_def)
  have n: "generate_unique_audio_filename ''cache'' ''1700000000000'' ''0a'' = ''cache/tts_1700000000000_0a.mp3''"
    "generate_unique_audio_filename ''cache'' ''1700000000001'' ''0b'' = ''cache/tts_1700000000001_0b.mp3''"
    by (simp_all add: generate_unique_audio_filename_def)
  have "audio_queue (queue_audio None (Some ''Hello'') True
        (generate_unique_audio_filename ''cache'' ''1700000000001'' ''0b'') Saved
        (queue_audio None (Some ''Hello'') True
           (generate_unique_audio_filename ''cache'' ''1700000000000'' ''0a'') Saved (init {})))
     = audio_queue (init {}) @ [(Some (generate_unique_audio_filename ''cache'' ''1700000000000'' ''0a''), True),
          (Some (generate_unique_audio_filename ''cache'' ''1700000000001'' ''0b''), True)]"
    by (rule C3_identity_is_generated_file_name [OF h(1) refl refl h(2,3,4,5,6),
          where d = True and d' = True, THEN conjunct2, THEN conjunct2, THEN conjunct2])
  then show ?thesis by (simp only: q n append_Nil)
qed

text \<open>
  The same text queued twice while the first task is still pending: both files are played.
\<close>

theorem C3_same_text_spoken_twice_counterexample:
  "played (exec [QueueAudio None (Some ''Hello'') True ''cache/tts_1700000000000_0a.mp3'' Saved,
                 QueueAudio None (Some ''Hello'') True ''cache/tts_1700000000001_0b.mp3'' Saved,
                 TaskStart 0, TaskGet 0 0 None, TaskSpawned 0 True True, ProcExit 0,
                 TaskWaited 0, TaskSettled 0 True,
                 TaskGet 0 1 None, TaskSpawned 0 True True, ProcExit 0,
                 TaskWaited 0, TaskSettled 0 True] (init {}))
   = [''cache/tts_1700000000000_0a.mp3'', ''cache/tts_1700000000001_0b.mp3'']"
  by (simp add: run_defs)



subsection \<open>Failures stay with their task\<close>







end
